theory Spec2Isabelle
  imports Main "HOL-Library.Word"
begin

section \<open>The pseudo-terminal runner (archive/pty\_runner.py)\<close>

text \<open>
  \<open>run_with_pty\<close> talks to the operating system: it allocates a pseudo-terminal, spawns a
  child, polls the controller endpoint and tees what it reads.  The model makes the
  operating system an explicit script of answers (\<open>env\<close>) and records what the function
  does as a list of events, in the order of the calls.

  Bytes are \<open>8 word list\<close>; Python's \<open>str\<close> is \<open>string\<close>.  \<open>str.encode\<close> and
  \<open>bytes.decode('utf-8', errors='replace')\<close> belong to the Python library and are taken
  as parameters (\<open>codec\<close>).
\<close>

type_synonym bytes = "8 word list"

record codec =
  encode :: "string \<Rightarrow> bytes"
  decode :: "bytes \<Rightarrow> string"

text \<open>
  Exceptions.  The function has two handlers, both \<open>except OSError\<close>; every other
  exception (\<open>KeyboardInterrupt\<close>, \<open>UnicodeEncodeError\<close> of the live sink, ...) passes
  them, so one constructor stands for all of those.
\<close>

datatype exn = OSError | OtherError

text \<open>
  One \<open>tick\<close> holds the answers of the operating system during one iteration of a polling
  loop (lines 39--84 for the outer loop, lines 68--81 for the final drain):
  \<^item> \<open>t_select\<close>: \<open>select.select([master_fd], [], [], 0.1)\<close>, \<open>Inr True\<close> when the
    controller endpoint is readable, \<open>Inr False\<close> on timeout;
  \<^item> \<open>t_read\<close>: \<open>os.read(master_fd, 1024)\<close>, \<open>Inr []\<close> at end of stream;
  \<^item> \<open>t_stdout\<close>: \<open>sys.stdout.write(text); sys.stdout.flush()\<close>, \<open>None\<close> when both
    succeed;
  \<^item> \<open>t_log\<close>: \<open>log_handle.write(text); log_handle.flush()\<close>;
  \<^item> \<open>t_poll\<close>: what the operating system reports to \<open>process.poll()\<close>: \<open>Some c\<close> when
    the child has terminated with status \<open>c\<close>.
  An answer the iteration never asks for is ignored.
\<close>

record tick =
  t_select :: "exn + bool"
  t_read :: "exn + bytes"
  t_stdout :: "exn option"
  t_log :: "exn option"
  t_poll :: "int option"

text \<open>
  The answers to the calls before the loop, \<open>None\<close> when the call succeeds:
  \<open>pty.openpty()\<close>, \<open>subprocess.Popen(...)\<close>, \<open>process.stdin.write(...)\<close>,
  \<open>process.stdin.close()\<close> and \<open>open(log_file, 'w')\<close>; then the ticks of the loops.
\<close>

record env =
  openpty :: "exn option"
  popen :: "exn option"
  stdin_write :: "exn option"
  stdin_close :: "exn option"
  open_log :: "exn option"
  ticks :: "tick list"

datatype event =
    OpenPty
  | Spawn "string list"
  | CloseSlave
  | StdinWrite bytes
  | StdinClose
  | OpenLog string
  | ReadChunk bytes
  | StdoutWrite string
  | LogWrite string
  | CloseMaster
  | CloseLog

text \<open>
  How a polling loop is left: by \<open>break\<close>, by an exception that no handler of the loop
  catches, or not at all within the script (the child neither writes nor exits: the
  \<open>while True\<close> is still polling when the script ends).
\<close>

datatype ending = Broke | Threw exn | Starved

datatype outcome = Returned "int option" string | Raised exn | Pending

text \<open>\<open>if input_data:\<close> and \<open>if log_file\<close>: \<open>None\<close> and the empty string are false.\<close>

definition truthy :: "string option \<Rightarrow> bool" where
  "truthy s = (case s of None \<Rightarrow> False | Some v \<Rightarrow> v \<noteq> [])"

text \<open>
  Lines 49--59 (and again 75--81): decode the chunk, append it to \<open>output_chunks\<close>, echo
  it to the live sink, write it to the log when there is one.  The result is the events,
  the chunks appended and the exception that ended the step, if any.
\<close>

definition tee :: "codec \<Rightarrow> bool \<Rightarrow> tick \<Rightarrow> bytes \<Rightarrow> event list \<times> string list \<times> exn option" where
  "tee cd haslog t data =
     (let text = decode cd data in
      case t_stdout t of
        Some e \<Rightarrow> ([], [text], Some e)
      | None \<Rightarrow>
          if haslog then
            (case t_log t of
               Some e \<Rightarrow> ([StdoutWrite text], [text], Some e)
             | None \<Rightarrow> ([StdoutWrite text, LogWrite text], [text], None))
          else ([StdoutWrite text], [text], None))"

text \<open>\<open>except OSError\<close>: the handler turns an \<open>OSError\<close> into leaving the loop.\<close>

definition except_OSError :: "exn \<Rightarrow> ending" where
  "except_OSError e = (if e = OSError then Broke else Threw e)"

text \<open>
  Lines 67--84, the final drain after the child was seen to have terminated.  The whole
  inner loop, its \<open>select\<close> included, sits in \<open>try ... except OSError: pass\<close>, followed by
  \<open>break\<close>.
\<close>

fun drain :: "codec \<Rightarrow> bool \<Rightarrow> tick list \<Rightarrow> event list \<times> string list \<times> ending" where
  "drain cd haslog [] = ([], [], Starved)"
| "drain cd haslog (t # ts) =
     (case t_select t of
        Inl e \<Rightarrow> ([], [], except_OSError e)
      | Inr ready \<Rightarrow>
          if \<not> ready then ([], [], Broke)
          else
            (case t_read t of
               Inl e \<Rightarrow> ([], [], except_OSError e)
             | Inr data \<Rightarrow>
                 if data = [] then ([], [], Broke)
                 else
                   (case tee cd haslog t data of
                      (evs, chunks, Some e) \<Rightarrow> (ReadChunk data # evs, chunks, except_OSError e)
                    | (evs, chunks, None) \<Rightarrow>
                        (case drain cd haslog ts of
                           (evs', chunks', r) \<Rightarrow>
                             (ReadChunk data # evs @ evs', chunks @ chunks', r)))))"

text \<open>
  Lines 43--62, the guarded read of the outer loop: \<open>None\<close> when the iteration goes on
  to the poll, \<open>Some r\<close> when the loop is left.
\<close>

definition read_step :: "codec \<Rightarrow> bool \<Rightarrow> tick \<Rightarrow> event list \<times> string list \<times> ending option" where
  "read_step cd haslog t =
     (case t_read t of
        Inl e \<Rightarrow> ([], [], Some (except_OSError e))
      | Inr data \<Rightarrow>
          if data = [] then ([], [], Some Broke)
          else
            (case tee cd haslog t data of
               (evs, chunks, Some e) \<Rightarrow> (ReadChunk data # evs, chunks, Some (except_OSError e))
             | (evs, chunks, None) \<Rightarrow> (ReadChunk data # evs, chunks, None)))"

text \<open>
  \<open>process.poll()\<close>: once \<open>returncode\<close> is set it is returned; otherwise the operating
  system is asked, and a status it reports is stored in \<open>returncode\<close>.
\<close>

definition poll :: "int option \<Rightarrow> tick \<Rightarrow> int option" where
  "poll returncode t = (case returncode of Some c \<Rightarrow> Some c | None \<Rightarrow> t_poll t)"

text \<open>
  Lines 39--84.  The third component of the result is \<open>process.returncode\<close> when the loop
  is left.  The \<open>select\<close> of line 41 is outside the inner \<open>try\<close>.
\<close>

fun loop :: "codec \<Rightarrow> bool \<Rightarrow> int option \<Rightarrow> tick list
    \<Rightarrow> event list \<times> string list \<times> int option \<times> ending" where
  "loop cd haslog returncode [] = ([], [], returncode, Starved)"
| "loop cd haslog returncode (t # ts) =
     (case t_select t of
        Inl e \<Rightarrow> ([], [], returncode, Threw e)
      | Inr ready \<Rightarrow>
          (case (if ready then read_step cd haslog t else ([], [], None)) of
             (evs, chunks, Some r) \<Rightarrow> (evs, chunks, returncode, r)
           | (evs, chunks, None) \<Rightarrow>
               (case poll returncode t of
                  Some c \<Rightarrow>
                    (case drain cd haslog ts of
                       (evs', chunks', r) \<Rightarrow> (evs @ evs', chunks @ chunks', Some c, r))
                | None \<Rightarrow>
                    (case loop cd haslog returncode ts of
                       (evs', chunks', rc, r) \<Rightarrow> (evs @ evs', chunks @ chunks', rc, r)))))"

text \<open>
  Lines 31--33.  The pipe to the child is buffered.  \<open>write\<close> raises only when the
  data does not fit the buffer and the pipe refuses it; usually it succeeds, and it is
  \<open>close\<close>, which flushes the buffer, that raises when the child has gone.  \<open>close\<close>
  closes the pipe also when its flush raises, so the event is recorded either way.
\<close>

definition deliver_input :: "codec \<Rightarrow> env \<Rightarrow> string option \<Rightarrow> event list \<times> exn option" where
  "deliver_input cd ev input_data =
     (case input_data of
        None \<Rightarrow> ([], None)
      | Some s \<Rightarrow>
          if s = [] then ([], None)
          else
            (case stdin_write ev of
               Some e \<Rightarrow> ([], Some e)
             | None \<Rightarrow> ([StdinWrite (encode cd s), StdinClose], stdin_close ev)))"

text \<open>Line 36.  The event records the attempt; \<open>open_log\<close> says whether it failed.\<close>

definition open_log_file :: "env \<Rightarrow> string option \<Rightarrow> event list \<times> exn option" where
  "open_log_file ev log_file =
     (case log_file of
        None \<Rightarrow> ([], None)
      | Some path \<Rightarrow> if path = [] then ([], None) else ([OpenLog path], open_log ev))"

text \<open>
  Lines 38--91: the \<open>try ... finally\<close> around the loop, and the \<open>return\<close>.  The
  \<open>finally\<close> clause runs when the loop is left, by \<open>break\<close> or by an exception alike.
  \<open>os.close\<close> of the open controller descriptor and \<open>close\<close> of the open, flushed log
  handle are taken not to raise.
\<close>

definition finally_events :: "bool \<Rightarrow> ending \<Rightarrow> event list" where
  "finally_events haslog r =
     (if r = Starved then []
      else CloseMaster # (if haslog then [CloseLog] else []))"

definition guarded_loop :: "codec \<Rightarrow> bool \<Rightarrow> tick list \<Rightarrow> event list \<times> outcome" where
  "guarded_loop cd haslog ts =
     (case loop cd haslog None ts of
        (evs, chunks, rc, r) \<Rightarrow>
          (evs @ finally_events haslog r,
           case r of
             Broke \<Rightarrow> Returned rc (concat chunks)
           | Threw e \<Rightarrow> Raised e
           | Starved \<Rightarrow> Pending))"

definition run_with_pty :: "codec \<Rightarrow> env \<Rightarrow> string list \<Rightarrow> string option \<Rightarrow> string option
    \<Rightarrow> event list \<times> outcome" where
  "run_with_pty cd ev cmd input_data log_file =
     (case openpty ev of
        Some e \<Rightarrow> ([], Raised e)
      | None \<Rightarrow>
     (case popen ev of
        Some e \<Rightarrow> ([OpenPty], Raised e)
      | None \<Rightarrow>
     (case deliver_input cd ev input_data of
        (ins, Some e) \<Rightarrow> ([OpenPty, Spawn cmd, CloseSlave] @ ins, Raised e)
      | (ins, None) \<Rightarrow>
     (case open_log_file ev log_file of
        (ops, Some e) \<Rightarrow> ([OpenPty, Spawn cmd, CloseSlave] @ ins @ ops, Raised e)
      | (ops, None) \<Rightarrow>
     (case guarded_loop cd (truthy log_file) (ticks ev) of
        (evs, oc) \<Rightarrow> ([OpenPty, Spawn cmd, CloseSlave] @ ins @ ops @ evs, oc))))))"


subsection \<open>Reading a run's events\<close>

definition stdout_of :: "event \<Rightarrow> string list" where
  "stdout_of e = (case e of StdoutWrite t \<Rightarrow> [t] | _ \<Rightarrow> [])"

definition log_of :: "event \<Rightarrow> string list" where
  "log_of e = (case e of LogWrite t \<Rightarrow> [t] | _ \<Rightarrow> [])"

definition read_of :: "event \<Rightarrow> bytes list" where
  "read_of e = (case e of ReadChunk b \<Rightarrow> [b] | _ \<Rightarrow> [])"

text \<open>The chunks written to the live sink, written to the log file and read from the
  controller endpoint, each in the order of the calls.\<close>

definition stdout_chunks :: "event list \<Rightarrow> string list" where
  "stdout_chunks tr = concat (map stdout_of tr)"

definition log_chunks :: "event list \<Rightarrow> string list" where
  "log_chunks tr = concat (map log_of tr)"

definition read_chunks :: "event list \<Rightarrow> bytes list" where
  "read_chunks tr = concat (map read_of tr)"

text \<open>Both sinks accept every write of the script.\<close>

definition sinks_accept :: "tick list \<Rightarrow> bool" where
  "sinks_accept ts = list_all (\<lambda>t. t_stdout t = None \<and> t_log t = None) ts"

text \<open>The events a polling loop can produce.\<close>

definition tee_event :: "event \<Rightarrow> bool" where
  "tee_event e =
     (case e of ReadChunk b \<Rightarrow> True | StdoutWrite t \<Rightarrow> True | LogWrite t \<Rightarrow> True | _ \<Rightarrow> False)"

definition is_stdin :: "event \<Rightarrow> bool" where
  "is_stdin e = (case e of StdinWrite b \<Rightarrow> True | StdinClose \<Rightarrow> True | _ \<Rightarrow> False)"

text \<open>
  The run reaches the \<open>try\<close> of line 38: the pseudo-terminal was allocated, the child
  spawned, the input (if any) delivered and the log (if any) opened.
\<close>

definition enters_loop :: "env \<Rightarrow> string option \<Rightarrow> string option \<Rightarrow> bool" where
  "enters_loop ev input_data log_file =
     (openpty ev = None \<and> popen ev = None
      \<and> (truthy input_data \<longrightarrow> stdin_write ev = None \<and> stdin_close ev = None)
      \<and> (truthy log_file \<longrightarrow> open_log ev = None))"

subsection \<open>Concrete inputs\<close>

text \<open>A codec that agrees with UTF-8 on 7-bit text, for evaluating concrete runs.\<close>

definition ascii :: codec where
  "ascii = \<lparr>encode = map (\<lambda>c. of_char c), decode = map (\<lambda>b. char_of (unat b))\<rparr>"

text \<open>An iteration in which nothing happens: \<open>select\<close> times out, the child is alive.\<close>

definition quiet :: tick where
  "quiet = \<lparr>t_select = Inr False, t_read = Inr [], t_stdout = None, t_log = None, t_poll = None\<rparr>"

text \<open>The child writes \<open>hi\<close>, pauses, exits with status 0 leaving \<open>!\<close> buffered.\<close>

definition demo_env :: env where
  "demo_env = \<lparr>openpty = None, popen = None, stdin_write = None, stdin_close = None,
     open_log = None,
     ticks = [quiet\<lparr>t_select := Inr True, t_read := Inr [104, 105]\<rparr>,
              quiet,
              quiet\<lparr>t_poll := Some 0\<rparr>,
              quiet\<lparr>t_select := Inr True, t_read := Inr [33]\<rparr>,
              quiet]\<rparr>"

text \<open>The child writes \<open>hi\<close>; echoing the next chunk raises an exception that is not an
  \<open>OSError\<close> (the live sink cannot encode it).\<close>

definition failing_sink_env :: env where
  "failing_sink_env = \<lparr>openpty = None, popen = None, stdin_write = None, stdin_close = None,
     open_log = None,
     ticks = [quiet\<lparr>t_select := Inr True, t_read := Inr [104, 105]\<rparr>,
              quiet\<lparr>t_select := Inr True, t_read := Inr [33], t_stdout := Some OtherError\<rparr>,
              quiet]\<rparr>"

text \<open>The child writes \<open>hi\<close>; echoing the next chunk raises an \<open>OSError\<close> (the reader
  of the live sink has gone: \<open>BrokenPipeError\<close>).\<close>

definition broken_sink_env :: env where
  "broken_sink_env = \<lparr>openpty = None, popen = None, stdin_write = None, stdin_close = None,
     open_log = None,
     ticks = [quiet\<lparr>t_select := Inr True, t_read := Inr [104, 105]\<rparr>,
              quiet\<lparr>t_select := Inr True, t_read := Inr [33], t_stdout := Some OSError\<rparr>,
              quiet]\<rparr>"

text \<open>The child exits without reading its input: the write fills the buffer, the close
  cannot flush it.\<close>

definition deaf_child_env :: env where
  "deaf_child_env = \<lparr>openpty = None, popen = None, stdin_write = None,
     stdin_close = Some OSError, open_log = None, ticks = []\<rparr>"

text \<open>The child has terminated with status 3 and the read on the controller endpoint
  fails (on Linux, \<open>EIO\<close> once the subordinate endpoint is closed).\<close>

definition hangup_env :: env where
  "hangup_env = \<lparr>openpty = None, popen = None, stdin_write = None, stdin_close = None,
     open_log = None,
     ticks = [quiet\<lparr>t_select := Inr True, t_read := Inl OSError, t_poll := Some 3\<rparr>]\<rparr>"

text \<open>The same child, with an end of stream on the controller endpoint instead.\<close>

definition eof_env :: env where
  "eof_env = \<lparr>openpty = None, popen = None, stdin_write = None, stdin_close = None,
     open_log = None,
     ticks = [quiet\<lparr>t_select := Inr True, t_read := Inr [], t_poll := Some 3\<rparr>]\<rparr>"

text \<open>The log destination cannot be opened.\<close>

definition no_log_env :: env where
  "no_log_env = \<lparr>openpty = None, popen = None, stdin_write = None, stdin_close = None,
     open_log = Some OSError,
     ticks = [quiet\<lparr>t_select := Inr True, t_read := Inr [104, 105]\<rparr>,
              quiet\<lparr>t_poll := Some 0\<rparr>]\<rparr>"

section \<open>The stream decoder (archive/stream\_parser.py)\<close>

subsection \<open>Python values\<close>

text \<open>
  What \<open>json.loads\<close> returns: \<open>None\<close>, \<open>bool\<close>, \<open>int\<close>, \<open>str\<close>, \<open>list\<close>, \<open>dict\<close>.
  A \<open>dict\<close> is the list of its items in insertion order, which is the order \<open>str\<close>
  prints; its keys are distinct.  A \<open>str\<close> is a \<open>string\<close>, one \<open>char\<close> for each
  code point, so the texts of the model are those with code points below 256.  JSON
  numbers with a fraction or an exponent (Python floats) are outside the model.
\<close>

datatype json =
    JNull
  | JBool bool
  | JInt int
  | JStr string
  | JArr "json list"
  | JObj "(string \<times> json) list"

text \<open>
  The exceptions of one iteration.  \<open>json.loads\<close> raises \<open>JSONDecodeError\<close> on a text
  that is not JSON, \<open>RecursionError\<close> on brackets nested deeper than the interpreter's
  recursion limit, and a \<open>ValueError\<close> that is not a \<open>JSONDecodeError\<close> (the constructor
  \<open>ValueError\<close> below) on an integer with more digits than the interpreter converts.
  The interpretation of the parsed record raises \<open>AttributeError\<close> and \<open>TypeError\<close>.
  The only handler is \<open>except json.JSONDecodeError\<close> (line 81).
\<close>

datatype error = JSONDecodeError | RecursionError | ValueError | AttributeError | TypeError

text \<open>\<open>d.get(k, default)\<close> on a \<open>dict\<close>.  A value that is not a \<open>dict\<close> has no
  \<open>get\<close>: the callers below raise \<open>AttributeError\<close> for it.\<close>

definition dict_get :: "(string \<times> json) list \<Rightarrow> string \<Rightarrow> json \<Rightarrow> json" where
  "dict_get kvs k d = (case map_of kvs k of Some v \<Rightarrow> v | None \<Rightarrow> d)"

text \<open>Truth value of a Python object (\<open>if text\<close>).\<close>

definition py_truthy :: "json \<Rightarrow> bool" where
  "py_truthy v =
     (case v of
        JNull \<Rightarrow> False
      | JBool b \<Rightarrow> b
      | JInt i \<Rightarrow> i \<noteq> 0
      | JStr s \<Rightarrow> s \<noteq> []
      | JArr xs \<Rightarrow> xs \<noteq> []
      | JObj kvs \<Rightarrow> kvs \<noteq> [])"

text \<open>
  Membership in a \<open>set\<close> goes by hash and \<open>==\<close>: \<open>True == 1\<close> and \<open>False == 0\<close>, all
  other values of different types differ; a \<open>list\<close> or a \<open>dict\<close> is unhashable.
\<close>

datatype hkey = KNone | KNum int | KStr string

definition hash_key :: "json \<Rightarrow> error + hkey" where
  "hash_key v =
     (case v of
        JNull \<Rightarrow> Inr KNone
      | JBool b \<Rightarrow> Inr (KNum (if b then 1 else 0))
      | JInt i \<Rightarrow> Inr (KNum i)
      | JStr s \<Rightarrow> Inr (KStr s)
      | JArr xs \<Rightarrow> Inl TypeError
      | JObj kvs \<Rightarrow> Inl TypeError)"

text \<open>\<open>sub in s\<close> on strings: \<open>sub\<close> occurs in \<open>s\<close> at some position.\<close>

fun py_in :: "string \<Rightarrow> string \<Rightarrow> bool" where
  "py_in sub [] = (sub = [])"
| "py_in sub (c # cs) = (take (length sub) (c # cs) = sub \<or> py_in sub cs)"

text \<open>\<open>x[:n]\<close>: a \<open>str\<close> and a \<open>list\<close> can be sliced, the other values raise (a
  \<open>TypeError\<close>; for a \<open>dict\<close>, a \<open>KeyError\<close> from Python 3.12 on, uncaught alike).\<close>

definition py_slice_to :: "nat \<Rightarrow> json \<Rightarrow> error + json" where
  "py_slice_to n v =
     (case v of
        JStr s \<Rightarrow> Inr (JStr (take n s))
      | JArr xs \<Rightarrow> Inr (JArr (take n xs))
      | _ \<Rightarrow> Inl TypeError)"

subsection \<open>\<open>str\<close> and \<open>repr\<close>\<close>

definition hex_digit :: "nat \<Rightarrow> char" where
  "hex_digit n = ''0123456789abcdef'' ! n"

fun str_nat :: "nat \<Rightarrow> string" where
  "str_nat n = (if n < 10 then [hex_digit n] else str_nat (n div 10) @ [hex_digit (n mod 10)])"

definition str_int :: "int \<Rightarrow> string" where
  "str_int i = (if i < 0 then CHR ''-'' # str_nat (nat (- i)) else str_nat (nat i))"

text \<open>\<open>str.isprintable\<close> below 256: not a control character, not a space other than
  U+0020, not the soft hyphen.\<close>

definition py_isprintable :: "char \<Rightarrow> bool" where
  "py_isprintable c =
     (let n = (of_char c :: nat) in (32 \<le> n \<and> n < 127) \<or> (161 \<le> n \<and> n \<noteq> 173))"

text \<open>\<open>repr\<close> of a \<open>str\<close>: single quotes, unless the string has a single quote and no
  double quote; the quote and the backslash are escaped, tab, newline and carriage return
  are written with their letter, the other unprintable characters as two hex digits.\<close>

definition repr_char :: "char \<Rightarrow> char \<Rightarrow> string" where
  "repr_char q c =
     (if c = q \<or> c = CHR 0x5C then [CHR 0x5C, c]
      else if c = CHR 0x09 then [CHR 0x5C, CHR ''t'']
      else if c = CHR 0x0A then [CHR 0x5C, CHR ''n'']
      else if c = CHR 0x0D then [CHR 0x5C, CHR ''r'']
      else if \<not> py_isprintable c then
        [CHR 0x5C, CHR ''x'', hex_digit (of_char c div 16), hex_digit (of_char c mod 16)]
      else [c])"

definition repr_str :: "string \<Rightarrow> string" where
  "repr_str s =
     (let q = (if CHR 0x27 \<in> set s \<and> CHR 0x22 \<notin> set s then CHR 0x22 else CHR 0x27)
      in q # concat (map (repr_char q) s) @ [q])"

fun join :: "string \<Rightarrow> string list \<Rightarrow> string" where
  "join sep [] = []"
| "join sep [x] = x"
| "join sep (x # y # ys) = x @ sep @ join sep (y # ys)"

fun py_repr :: "json \<Rightarrow> string" where
  "py_repr JNull = ''None''"
| "py_repr (JBool b) = (if b then ''True'' else ''False'')"
| "py_repr (JInt i) = str_int i"
| "py_repr (JStr s) = repr_str s"
| "py_repr (JArr xs) = ''['' @ join '', '' (map py_repr xs) @ '']''"
| "py_repr (JObj kvs) =
     ''{'' @ join '', '' (map (\<lambda>kv. repr_str (fst kv) @ '': '' @ py_repr (snd kv)) kvs) @ ''}''"

text \<open>\<open>str(v)\<close>, which is also what an f-string field \<open>{v}\<close> and \<open>print(v)\<close> write.\<close>

definition py_str :: "json \<Rightarrow> string" where
  "py_str v = (case v of JStr s \<Rightarrow> s | _ \<Rightarrow> py_repr v)"

text \<open>\<open>str.isspace\<close> below 256, and \<open>str.strip()\<close>.\<close>

definition py_isspace :: "char \<Rightarrow> bool" where
  "py_isspace c =
     (let n = (of_char c :: nat)
      in (9 \<le> n \<and> n \<le> 13) \<or> (28 \<le> n \<and> n \<le> 32) \<or> n = 133 \<or> n = 160)"

definition strip :: "string \<Rightarrow> string" where
  "strip s = rev (dropWhile py_isspace (rev (dropWhile py_isspace s)))"

subsection \<open>The decoder\<close>

text \<open>The two variables that live across lines (lines 15--16).\<close>

record dstate =
  full_text :: string
  seen_tools :: "hkey set"

text \<open>
  What the decoder writes, in the order of the calls:
  \<^item> \<open>ArchiveWrite line\<close>: \<open>jsonl_handle.write(line); jsonl_handle.flush()\<close>;
  \<^item> \<open>ToolLine k name detail\<close>: the progress line of line 60, two blanks, the wrench sign,
    \<open>name\<close>, a colon and \<open>detail\<close>; \<open>k\<close> is the identifier that was entered into
    \<open>seen_tools\<close> for it (the line itself does not show it);
  \<^item> \<open>Fragment text\<close>: \<open>print(text, end="", flush=True)\<close>;
  \<^item> \<open>NarrativeWrite text\<close>: the write of lines 85--86.
  The sinks are taken to accept every write.
\<close>

datatype io =
    ArchiveWrite string
  | ToolLine hkey string string
  | Fragment string
  | NarrativeWrite string

text \<open>Lines 46--59.  Every branch starts with \<open>inp.get\<close>, which only a \<open>dict\<close> has.\<close>

definition tool_detail :: "json \<Rightarrow> json \<Rightarrow> error + json" where
  "tool_detail tool_name inp =
     (case inp of
        JObj kvs \<Rightarrow>
          if tool_name = JStr ''Read'' then Inr (dict_get kvs ''file_path'' (JStr []))
          else if tool_name = JStr ''Grep'' then
            Inr (JStr (''pattern='' @ py_repr (dict_get kvs ''pattern'' (JStr []))
                       @ '' in '' @ py_str (dict_get kvs ''path'' (JStr ''.''))))
          else if tool_name = JStr ''Glob'' then Inr (dict_get kvs ''pattern'' (JStr []))
          else if tool_name = JStr ''Bash'' then py_slice_to 80 (dict_get kvs ''command'' (JStr []))
          else if tool_name = JStr ''Task'' then Inr (dict_get kvs ''description'' (JStr []))
          else Inr (dict_get kvs ''description'' (JStr (take 60 (py_str inp))))
      | _ \<Rightarrow> Inl AttributeError)"

text \<open>Lines 40--60, for a block that is a \<open>dict\<close>.\<close>

definition tool_use :: "dstate \<Rightarrow> (string \<times> json) list \<Rightarrow> error + io list \<times> dstate" where
  "tool_use st block =
     (let tool_name = dict_get block ''name'' (JStr ''unknown'');
          tool_id = dict_get block ''id'' (JStr [])
      in case hash_key tool_id of
           Inl e \<Rightarrow> Inl e
         | Inr k \<Rightarrow>
             if k \<in> seen_tools st then Inr ([], st)
             else
               (case tool_detail tool_name (dict_get block ''input'' (JObj [])) of
                  Inl e \<Rightarrow> Inl e
                | Inr detail \<Rightarrow>
                    Inr ([ToolLine k (py_str tool_name) (py_str detail)],
                         st\<lparr>seen_tools := insert k (seen_tools st)\<rparr>)))"

text \<open>Lines 64--66 and 77--79: \<open>if text and text not in full_text\<close>.  The test
  \<open>text not in full_text\<close> raises for a \<open>text\<close> that is not a \<open>str\<close>.\<close>

definition emit_text :: "dstate \<Rightarrow> json \<Rightarrow> error + io list \<times> dstate" where
  "emit_text st text =
     (if \<not> py_truthy text then Inr ([], st)
      else
        (case text of
           JStr s \<Rightarrow>
             if py_in s (full_text st) then Inr ([], st)
             else Inr ([Fragment s], st\<lparr>full_text := full_text st @ s\<rparr>)
         | _ \<Rightarrow> Inl TypeError))"

text \<open>Lines 38--66: one block of an assistant message.\<close>

definition assistant_block :: "dstate \<Rightarrow> json \<Rightarrow> error + io list \<times> dstate" where
  "assistant_block st block =
     (case block of
        JObj b \<Rightarrow>
          if dict_get b ''type'' JNull = JStr ''tool_use'' then tool_use st b
          else if dict_get b ''type'' JNull = JStr ''text'' then
            emit_text st (dict_get b ''text'' (JStr []))
          else Inr ([], st)
      | _ \<Rightarrow> Inl AttributeError)"

text \<open>Lines 75--79: one block of a final result.\<close>

definition result_block :: "dstate \<Rightarrow> json \<Rightarrow> error + io list \<times> dstate" where
  "result_block st block =
     (case block of
        JObj b \<Rightarrow>
          if dict_get b ''type'' JNull = JStr ''text'' then
            emit_text st (dict_get b ''text'' (JStr []))
          else Inr ([], st)
      | _ \<Rightarrow> Inl AttributeError)"

text \<open>\<open>for block in content\<close> (lines 37 and 74): an exception ends the loop; what was
  printed before it stays printed.\<close>

fun for_blocks :: "(dstate \<Rightarrow> json \<Rightarrow> error + io list \<times> dstate) \<Rightarrow> dstate \<Rightarrow> json list
    \<Rightarrow> io list \<times> (error + dstate)" where
  "for_blocks body st [] = ([], Inr st)"
| "for_blocks body st (block # blocks) =
     (case body st block of
        Inl e \<Rightarrow> ([], Inl e)
      | Inr (os, st') \<Rightarrow>
          (case for_blocks body st' blocks of (os', r) \<Rightarrow> (os @ os', r)))"

text \<open>Line 70: \<open>obj.get("result", obj.get("message", {}))\<close>.\<close>

definition completion_payload :: "(string \<times> json) list \<Rightarrow> json" where
  "completion_payload obj = dict_get obj ''result'' (dict_get obj ''message'' (JObj []))"

text \<open>Lines 30--79: the interpretation of a parsed record.\<close>

definition interpret_record :: "dstate \<Rightarrow> json \<Rightarrow> io list \<times> (error + dstate)" where
  "interpret_record st obj =
     (case obj of
        JObj items \<Rightarrow>
          (let msg_type = dict_get items ''type'' (JStr []) in
           if msg_type = JStr ''assistant'' then
             (case dict_get items ''message'' (JObj []) of
                JObj message \<Rightarrow>
                  (case dict_get message ''content'' (JArr []) of
                     JArr content \<Rightarrow> for_blocks assistant_block st content
                   | _ \<Rightarrow> ([], Inr st))
              | _ \<Rightarrow> ([], Inl AttributeError))
           else if msg_type = JStr ''result'' then
             (case completion_payload items of
                JObj result \<Rightarrow>
                  (case dict_get result ''content'' (JArr []) of
                     JArr content \<Rightarrow> for_blocks result_block st content
                   | _ \<Rightarrow> ([], Inr st))
              | _ \<Rightarrow> ([], Inr st))
           else ([], Inr st))
      | _ \<Rightarrow> ([], Inl AttributeError))"

text \<open>
  Lines 24--82, after the raw line was archived.  \<open>json.loads\<close> belongs to the Python
  library and is a parameter: it returns a value (\<open>Inr\<close>) or raises (\<open>Inl\<close>).  The
  handler of line 81 passes over a \<open>JSONDecodeError\<close>; any other exception of
  \<open>json.loads\<close> leaves the loop like those of the interpretation.
\<close>

definition handle_line :: "(string \<Rightarrow> error + json) \<Rightarrow> dstate \<Rightarrow> string
    \<Rightarrow> io list \<times> (error + dstate)" where
  "handle_line json_loads st line =
     (let l = strip line in
      if l = [] then ([], Inr st)
      else
        (case json_loads l of
           Inl e \<Rightarrow> if e = JSONDecodeError then ([], Inr st) else ([], Inl e)
         | Inr obj \<Rightarrow> interpret_record st obj))"

text \<open>Lines 19--82: \<open>for line in sys.stdin\<close>.  The archive write of lines 21--22 comes
  first, whatever the rest of the iteration does.\<close>

fun lines_loop :: "(string \<Rightarrow> error + json) \<Rightarrow> dstate \<Rightarrow> string list
    \<Rightarrow> io list \<times> (error + dstate)" where
  "lines_loop json_loads st [] = ([], Inr st)"
| "lines_loop json_loads st (line # rest) =
     (case handle_line json_loads st line of
        (os, Inl e) \<Rightarrow> (ArchiveWrite line # os, Inl e)
      | (os, Inr st') \<Rightarrow>
          (case lines_loop json_loads st' rest of
             (os', r) \<Rightarrow> (ArchiveWrite line # os @ os', r)))"

text \<open>
  Lines 15--86 of \<open>main\<close>, for a command line with both file names.  An uncaught
  exception ends the program before the narrative is written.
\<close>

definition main :: "(string \<Rightarrow> error + json) \<Rightarrow> string list \<Rightarrow> io list \<times> error option" where
  "main json_loads lines =
     (case lines_loop json_loads \<lparr>full_text = [], seen_tools = {}\<rparr> lines of
        (os, Inl e) \<Rightarrow> (os, Some e)
      | (os, Inr st) \<Rightarrow> (os @ [NarrativeWrite (full_text st)], None))"

subsection \<open>Reading a decoder run's writes\<close>

definition announced_of :: "io \<Rightarrow> hkey list" where
  "announced_of x = (case x of ToolLine k n d \<Rightarrow> [k] | _ \<Rightarrow> [])"


definition fragments_of :: "io \<Rightarrow> string list" where
  "fragments_of x = (case x of Fragment t \<Rightarrow> [t] | _ \<Rightarrow> [])"

definition narrative_of :: "io \<Rightarrow> string list" where
  "narrative_of x = (case x of NarrativeWrite t \<Rightarrow> [t] | _ \<Rightarrow> [])"

text \<open>The identifiers for which a progress line was printed, the lines written to the
  record archive, the fragments printed to the live sink and the texts written to the
  narrative file, each in the order of the calls.\<close>

definition announced :: "io list \<Rightarrow> hkey list" where
  "announced tr = concat (map announced_of tr)"


definition fragments :: "io list \<Rightarrow> string list" where
  "fragments tr = concat (map fragments_of tr)"

definition narrative :: "io list \<Rightarrow> string list" where
  "narrative tr = concat (map narrative_of tr)"

text \<open>What a step does to \<open>seen_tools\<close>: the identifiers it announces were not seen
  before and are announced once each; they are exactly what it enters into the set.\<close>

definition announces_fresh :: "dstate \<Rightarrow> io list \<Rightarrow> bool" where
  "announces_fresh st os = (distinct (announced os) \<and> set (announced os) \<inter> seen_tools st = {})"

definition enters_announced :: "dstate \<Rightarrow> io list \<Rightarrow> dstate \<Rightarrow> bool" where
  "enters_announced st os st' = (seen_tools st' = seen_tools st \<union> set (announced os))"


subsection \<open>Concrete records and lines\<close>

definition initial :: dstate where
  "initial = \<lparr>full_text = [], seen_tools = {}\<rparr>"

definition hello_msg :: json where
  "hello_msg = JObj [(''type'', JStr ''assistant''),
     (''message'', JObj [(''content'', JArr [JObj [(''type'', JStr ''text''),
        (''text'', JStr ''Hello'')]])])]"

definition read_t1 :: json where
  "read_t1 = JObj [(''type'', JStr ''assistant''),
     (''message'', JObj [(''content'', JArr [JObj [(''type'', JStr ''tool_use''),
        (''id'', JStr ''t1''), (''name'', JStr ''Read''),
        (''input'', JObj [(''file_path'', JStr ''/a.txt'')])]])])]"

definition hello_line :: string where
  \<open>hello_line =
     ''{"type":"assistant","message":{"content":[{"type":"text","text":"Hello"}]}}''
     @ [CHR 0x0A]\<close>

definition read_t1_line :: string where
  \<open>read_t1_line =
     ''{"type":"assistant","message":{"content":[{"type":"tool_use","id":"t1",''
     @ ''"name":"Read","input":{"file_path":"/a.txt"}}]}}'' @ [CHR 0x0A]\<close>



text \<open>What \<open>json.loads\<close> answers on the stripped lines above: the two records, a
  \<open>RecursionError\<close> on the brackets, a \<open>JSONDecodeError\<close> on \<open>not json\<close>.  Its answer on
  any other text is not used.\<close>

definition demo_loads :: "string \<Rightarrow> error + json" where
  "demo_loads s =
     (if s = strip hello_line then Inr hello_msg
      else if s = strip read_t1_line then Inr read_t1
      else if s = replicate 1000 (CHR ''['') then Inl RecursionError
      else Inl JSONDecodeError)"






section \<open>Properties of the runner\<close>

subsection \<open>The tee\<close>

lemmas proj_defs =
  stdout_chunks_def log_chunks_def read_chunks_def stdout_of_def log_of_def read_of_def

lemma tee_accepted:
  assumes "t_stdout t = None" "t_log t = None" "tee cd haslog t data = (evs, chunks, x)"
  shows "x = None \<and> chunks = [decode cd data] \<and> stdout_chunks evs = chunks
     \<and> read_chunks evs = [] \<and> log_chunks evs = (if haslog then chunks else [])"
  using assms by (auto simp: tee_def Let_def proj_defs split: if_splits)

lemma read_step_accepted:
  assumes "t_stdout t = None" "t_log t = None" "read_step cd haslog t = (evs, chunks, x)"
  shows "stdout_chunks evs = chunks \<and> map (decode cd) (read_chunks evs) = chunks
     \<and> log_chunks evs = (if haslog then chunks else [])"
proof (cases "t_read t")
  case (Inl e)
  with assms show ?thesis by (auto simp: read_step_def proj_defs)
next
  case (Inr data)
  show ?thesis
  proof (cases "data = []")
    case True
    with Inr assms show ?thesis by (auto simp: read_step_def proj_defs)
  next
    case False
    obtain a b c where T: "tee cd haslog t data = (a, b, c)"
      by (cases "tee cd haslog t data") auto
    from tee_accepted[OF assms(1,2) T] T Inr False assms(3) show ?thesis
      by (auto simp: read_step_def proj_defs)
  qed
qed

lemma drain_accepted:
  "sinks_accept ts \<Longrightarrow> drain cd haslog ts = (evs, chunks, r) \<Longrightarrow>
     stdout_chunks evs = chunks \<and> map (decode cd) (read_chunks evs) = chunks
     \<and> log_chunks evs = (if haslog then chunks else [])"
proof (induction ts arbitrary: evs chunks r)
  case Nil
  then show ?case by (simp add: proj_defs)
next
  case (Cons t ts)
  from Cons.prems(1) have ok: "t_stdout t = None" "t_log t = None" and oks: "sinks_accept ts"
    by (simp_all add: sinks_accept_def)
  show ?case
  proof (cases "t_select t")
    case (Inl e)
    with Cons.prems show ?thesis by (simp add: proj_defs)
  next
    case (Inr ready)
    note sel = Inr
    show ?thesis
    proof (cases "ready \<and> (\<exists>d. t_read t = Inr d \<and> d \<noteq> [])")
      case False
      with sel Cons.prems(2) show ?thesis
        by (cases "t_read t") (auto simp: proj_defs split: if_splits)
    next
      case True
      then obtain data where rd: "ready" "t_read t = Inr data" "data \<noteq> []" by blast
      obtain a b c where T: "tee cd haslog t data = (a, b, c)"
        by (cases "tee cd haslog t data") auto
      from tee_accepted[OF ok T] have c: "c = None" and b: "b = [decode cd data]"
        and sa: "stdout_chunks a = b" and ra: "read_chunks a = []"
        and la: "log_chunks a = (if haslog then b else [])" by auto
      obtain evs' chunks' r' where D: "drain cd haslog ts = (evs', chunks', r')"
        by (cases "drain cd haslog ts") auto
      from Cons.IH[OF oks D] have ih: "stdout_chunks evs' = chunks'"
        "map (decode cd) (read_chunks evs') = chunks'"
        "log_chunks evs' = (if haslog then chunks' else [])" by auto
      from Cons.prems(2) sel rd T c D
      have "evs = ReadChunk data # a @ evs'" "chunks = b @ chunks'" by auto
      with ih sa ra la b show ?thesis by (auto simp: proj_defs)
    qed
  qed
qed

lemma loop_accepted:
  "sinks_accept ts \<Longrightarrow> loop cd haslog rc ts = (evs, chunks, rc', r) \<Longrightarrow>
     stdout_chunks evs = chunks \<and> map (decode cd) (read_chunks evs) = chunks
     \<and> log_chunks evs = (if haslog then chunks else [])"
proof (induction ts arbitrary: evs chunks rc' r)
  case Nil
  then show ?case by (simp add: proj_defs)
next
  case (Cons t ts)
  from Cons.prems(1) have ok: "t_stdout t = None" "t_log t = None" and oks: "sinks_accept ts"
    by (simp_all add: sinks_accept_def)
  show ?case
  proof (cases "t_select t")
    case (Inl e)
    with Cons.prems show ?thesis by (simp add: proj_defs)
  next
    case (Inr ready)
    note sel = Inr
    obtain a b x where S: "(if ready then read_step cd haslog t else ([], [], None)) = (a, b, x)"
      by (cases "if ready then read_step cd haslog t else ([], [], None)") auto
    have ab: "stdout_chunks a = b \<and> map (decode cd) (read_chunks a) = b
       \<and> log_chunks a = (if haslog then b else [])"
    proof (cases ready)
      case True
      with S have "read_step cd haslog t = (a, b, x)" by simp
      from read_step_accepted[OF ok this] show ?thesis .
    next
      case False
      with S show ?thesis by (auto simp: proj_defs)
    qed
    show ?thesis
    proof (cases x)
      case (Some e)
      with Cons.prems(2) sel S have "evs = a" "chunks = b" by auto
      with ab show ?thesis by simp
    next
      case None
      note x = None
      show ?thesis
      proof (cases "poll rc t")
        case (Some c)
        obtain evs' chunks' r' where D: "drain cd haslog ts = (evs', chunks', r')"
          by (cases "drain cd haslog ts") auto
        from drain_accepted[OF oks D] have ih: "stdout_chunks evs' = chunks'"
          "map (decode cd) (read_chunks evs') = chunks'"
          "log_chunks evs' = (if haslog then chunks' else [])" by auto
        from Cons.prems(2) sel S x Some D have "evs = a @ evs'" "chunks = b @ chunks'" by auto
        with ih ab show ?thesis by (auto simp: proj_defs)
      next
        case None
        obtain evs' chunks' rc2 r' where D: "loop cd haslog rc ts = (evs', chunks', rc2, r')"
          by (cases "loop cd haslog rc ts") auto
        from Cons.IH[OF oks D] have ih: "stdout_chunks evs' = chunks'"
          "map (decode cd) (read_chunks evs') = chunks'"
          "log_chunks evs' = (if haslog then chunks' else [])" by auto
        from Cons.prems(2) sel S x None D have "evs = a @ evs'" "chunks = b @ chunks'" by auto
        with ih ab show ?thesis by (auto simp: proj_defs)
      qed
    qed
  qed
qed

lemma finally_no_chunks:
  "stdout_chunks (finally_events h r) = [] \<and> log_chunks (finally_events h r) = []
   \<and> read_chunks (finally_events h r) = []"
  by (simp add: finally_events_def proj_defs)

lemma guarded_loop_accepted:
  assumes "sinks_accept ts" "guarded_loop cd haslog ts = (evs, oc)"
  shows "stdout_chunks evs = map (decode cd) (read_chunks evs)
     \<and> log_chunks evs = (if haslog then stdout_chunks evs else [])
     \<and> (\<forall>rc text. oc = Returned rc text \<longrightarrow> text = concat (stdout_chunks evs))"
proof -
  obtain a b rc r where L: "loop cd haslog None ts = (a, b, rc, r)"
    by (cases "loop cd haslog None ts") auto
  from loop_accepted[OF assms(1) L]
  have ab: "stdout_chunks a = b" "map (decode cd) (read_chunks a) = b"
    "log_chunks a = (if haslog then b else [])" by auto
  from assms(2) L have evs: "evs = a @ finally_events haslog r"
    and oc: "oc = (case r of Broke \<Rightarrow> Returned rc (concat b) | Threw e \<Rightarrow> Raised e
                   | Starved \<Rightarrow> Pending)"
    by (auto simp: guarded_loop_def)
  have s: "stdout_chunks evs = b" "read_chunks evs = read_chunks a"
    "log_chunks evs = log_chunks a"
    using evs ab finally_no_chunks[of haslog r]
    by (simp_all add: stdout_chunks_def log_chunks_def read_chunks_def)
  from oc have "\<forall>rc text. oc = Returned rc text \<longrightarrow> text = concat b"
    by (cases r) auto
  with s ab show ?thesis by auto
qed

lemma deliver_no_chunks:
  "deliver_input cd ev i = (ins, x) \<Longrightarrow>
     stdout_chunks ins = [] \<and> log_chunks ins = [] \<and> read_chunks ins = []"
  by (auto simp: deliver_input_def proj_defs split: option.splits if_splits)

lemma open_no_chunks:
  "open_log_file ev l = (ops, y) \<Longrightarrow>
     stdout_chunks ops = [] \<and> log_chunks ops = [] \<and> read_chunks ops = []"
  by (auto simp: open_log_file_def proj_defs split: option.splits if_splits)

lemma run_accepted:
  assumes "sinks_accept (ticks ev)"
    and "run_with_pty cd ev cmd input_data log_file = (tr, oc)"
  shows "stdout_chunks tr = map (decode cd) (read_chunks tr)
     \<and> (truthy log_file \<longrightarrow> log_chunks tr = stdout_chunks tr)
     \<and> (\<forall>rc text. oc = Returned rc text \<longrightarrow> text = concat (stdout_chunks tr))"
proof -
  obtain ins x where I: "deliver_input cd ev input_data = (ins, x)"
    by (cases "deliver_input cd ev input_data") auto
  obtain ops y where O: "open_log_file ev log_file = (ops, y)"
    by (cases "open_log_file ev log_file") auto
  obtain evs oc' where G: "guarded_loop cd (truthy log_file) (ticks ev) = (evs, oc')"
    by (cases "guarded_loop cd (truthy log_file) (ticks ev)") auto
  from deliver_no_chunks[OF I] open_no_chunks[OF O]
  have z: "stdout_chunks ins = []" "log_chunks ins = []" "read_chunks ins = []"
    "stdout_chunks ops = []" "log_chunks ops = []" "read_chunks ops = []" by simp_all
  note g = guarded_loop_accepted[OF assms(1) G]
  let ?pre = "[OpenPty, Spawn cmd, CloseSlave] @ ins @ ops"
  have quiet: "stdout_chunks tr = [] \<and> log_chunks tr = [] \<and> read_chunks tr = []
      \<and> (\<exists>e. oc = Raised e)"
    if "openpty ev \<noteq> None \<or> popen ev \<noteq> None \<or> x \<noteq> None \<or> y \<noteq> None"
    using that assms(2) I O G z
    by (auto simp: run_with_pty_def proj_defs split: option.splits)
  show ?thesis
  proof (cases "openpty ev \<noteq> None \<or> popen ev \<noteq> None \<or> x \<noteq> None \<or> y \<noteq> None")
    case True
    from quiet[OF True] show ?thesis by auto
  next
    case False
    with assms(2) I O G have "tr = ?pre @ evs" "oc = oc'"
      by (auto simp: run_with_pty_def)
    then have "stdout_chunks tr = stdout_chunks evs" "log_chunks tr = log_chunks evs"
      "read_chunks tr = read_chunks evs" "oc = oc'"
      using z by (simp_all add: proj_defs)
    with g show ?thesis by auto
  qed
qed

lemma demo_run:
  "run_with_pty ascii demo_env [''claude'', ''-p''] (Some ''go'') (Some ''run.log'') =
     ([OpenPty, Spawn [''claude'', ''-p''], CloseSlave, StdinWrite [103, 111], StdinClose,
       OpenLog ''run.log'', ReadChunk [104, 105], StdoutWrite ''hi'', LogWrite ''hi'',
       ReadChunk [33], StdoutWrite ''!'', LogWrite ''!'', CloseMaster, CloseLog],
      Returned (Some 0) ''hi!'')"
  by code_simp

lemma broken_sink_run:
  "run_with_pty ascii broken_sink_env [''claude'', ''-p''] None (Some ''run.log'') =
     ([OpenPty, Spawn [''claude'', ''-p''], CloseSlave, OpenLog ''run.log'',
       ReadChunk [104, 105], StdoutWrite ''hi'', LogWrite ''hi'', ReadChunk [33],
       CloseMaster, CloseLog],
      Returned None ''hi!'')"
  by code_simp

text \<open>
  C1 fails as stated: a chunk is appended to \<open>output_chunks\<close> on line 50, before it is
  written to the live sink on line 53 and to the log on line 58, and an \<open>OSError\<close> of
  either write is taken by the handler of line 61 like a read error.  When the live sink
  refuses the second chunk, the run returns the text \<open>hi!\<close>, of which only \<open>hi\<close> was
  echoed and logged.
\<close>

theorem sink_error_breaks_agreement:
  "snd (run_with_pty ascii broken_sink_env [''claude'', ''-p''] None (Some ''run.log''))
     = Returned None ''hi!''
   \<and> concat (stdout_chunks (fst (run_with_pty ascii broken_sink_env [''claude'', ''-p''] None
        (Some ''run.log'')))) = ''hi''
   \<and> concat (log_chunks (fst (run_with_pty ascii broken_sink_env [''claude'', ''-p''] None
        (Some ''run.log'')))) = ''hi''
   \<and> read_chunks (fst (run_with_pty ascii broken_sink_env [''claude'', ''-p''] None
        (Some ''run.log''))) = [[104, 105], [33]]"
  by (simp add: broken_sink_run proj_defs)

text \<open>
  C1, amended.  For every run in which every write to the live sink and to the log file
  succeeds, and for every sequence of chunks read from the controller endpoint during it,
  the chunks written to the live sink are the decoded chunks read, one for one and in
  the order they were read; when a log destination was given, the chunks written to the
  log file are the same list; and the captured text that \<open>run_with_pty\<close> returns is
  their concatenation.
\<close>

theorem tee_streams_agree:
  assumes "sinks_accept (ticks ev)"
  shows "stdout_chunks (fst (run_with_pty cd ev cmd input_data log_file))
       = map (decode cd) (read_chunks (fst (run_with_pty cd ev cmd input_data log_file)))
     \<and> (truthy log_file \<longrightarrow>
          log_chunks (fst (run_with_pty cd ev cmd input_data log_file))
            = stdout_chunks (fst (run_with_pty cd ev cmd input_data log_file)))
     \<and> (\<forall>rc text. snd (run_with_pty cd ev cmd input_data log_file) = Returned rc text \<longrightarrow>
          text = concat (stdout_chunks (fst (run_with_pty cd ev cmd input_data log_file))))"
  by (rule run_accepted[OF assms prod.collapse[symmetric]])

theorem tee_streams_agree_witness:
  "sinks_accept (ticks demo_env) \<and> truthy (Some ''run.log'')
   \<and> snd (run_with_pty ascii demo_env [''claude'', ''-p''] (Some ''go'') (Some ''run.log''))
       = Returned (Some 0) ''hi!''
   \<and> read_chunks (fst (run_with_pty ascii demo_env [''claude'', ''-p''] (Some ''go'')
       (Some ''run.log''))) = [[104, 105], [33]]
   \<and> stdout_chunks (fst (run_with_pty ascii demo_env [''claude'', ''-p''] (Some ''go'')
       (Some ''run.log''))) = [''hi'', ''!'']
   \<and> log_chunks (fst (run_with_pty ascii demo_env [''claude'', ''-p''] (Some ''go'')
       (Some ''run.log''))) = [''hi'', ''!'']"
proof -
  have h: "sinks_accept (ticks demo_env)"
    by (simp add: sinks_accept_def demo_env_def quiet_def)
  have t: "truthy (Some ''run.log'')"
    by (simp add: truthy_def)
  have d: "map (decode ascii) [[104, 105], [33]] = [''hi'', ''!'']"
    by code_simp
  from tee_streams_agree[OF h, of ascii "[''claude'', ''-p'']" "Some ''go''" "Some ''run.log''"]
    h t d demo_run
  show ?thesis by (simp add: proj_defs)
qed

subsection \<open>Opening the log\<close>

text \<open>
  C2 fails as stated: the log is opened on line 36, after the child was spawned on line 20
  and after the input was delivered.  With a log destination that cannot be opened, the
  child has been started and has received its input when the error surfaces.
\<close>

theorem log_open_failure_child_spawned:
  "run_with_pty ascii no_log_env [''claude'', ''-p''] (Some ''go'') (Some ''/nowhere/run.log'') =
     ([OpenPty, Spawn [''claude'', ''-p''], CloseSlave, StdinWrite [103, 111], StdinClose,
       OpenLog ''/nowhere/run.log''],
      Raised OSError)"
  by code_simp

text \<open>
  C2, amended.  If a log destination is given and opening it fails, the failure is
  surfaced as the error of \<open>run_with_pty\<close> as soon as the open is attempted, before
  anything is read from the controller endpoint; the open is attempted only after the
  child process has been spawned, so the child is already started when the log file
  cannot be opened.
\<close>

theorem log_open_failure_after_spawn:
  assumes "openpty ev = None" and "popen ev = None"
    and "truthy input_data \<longrightarrow> stdin_write ev = None \<and> stdin_close ev = None"
    and "log_file = Some path" and "path \<noteq> []" and "open_log ev = Some e"
  shows "snd (run_with_pty cd ev cmd input_data log_file) = Raised e
     \<and> read_chunks (fst (run_with_pty cd ev cmd input_data log_file)) = []
     \<and> OpenLog path \<in> set (fst (run_with_pty cd ev cmd input_data log_file))
     \<and> Spawn cmd \<in> set (takeWhile (\<lambda>x. x \<noteq> OpenLog path)
                          (fst (run_with_pty cd ev cmd input_data log_file)))"
proof -
  have "snd (deliver_input cd ev input_data) = None
      \<and> read_chunks (fst (deliver_input cd ev input_data)) = []"
    using assms(3) by (auto simp: deliver_input_def truthy_def proj_defs split: option.splits)
  then obtain ins where I: "deliver_input cd ev input_data = (ins, None)"
      and ins: "read_chunks ins = []"
    by (cases "deliver_input cd ev input_data") auto
  have O: "open_log_file ev log_file = ([OpenLog path], Some e)"
    using assms(4-6) by (simp add: open_log_file_def)
  have R: "run_with_pty cd ev cmd input_data log_file
      = ([OpenPty, Spawn cmd, CloseSlave] @ ins @ [OpenLog path], Raised e)"
    using assms(1,2) I O by (simp add: run_with_pty_def)
  from R ins show ?thesis by (simp add: proj_defs)
qed

theorem log_open_failure_after_spawn_witness:
  "openpty no_log_env = None \<and> popen no_log_env = None \<and> stdin_write no_log_env = None
   \<and> stdin_close no_log_env = None
   \<and> ''/nowhere/run.log'' \<noteq> [] \<and> open_log no_log_env = Some OSError
   \<and> snd (run_with_pty ascii no_log_env [''claude'', ''-p''] (Some ''go'')
        (Some ''/nowhere/run.log'')) = Raised OSError
   \<and> read_chunks (fst (run_with_pty ascii no_log_env [''claude'', ''-p''] (Some ''go'')
        (Some ''/nowhere/run.log''))) = []
   \<and> OpenLog ''/nowhere/run.log''
        \<in> set (fst (run_with_pty ascii no_log_env [''claude'', ''-p''] (Some ''go'')
             (Some ''/nowhere/run.log'')))
   \<and> Spawn [''claude'', ''-p'']
        \<in> set (takeWhile (\<lambda>x. x \<noteq> OpenLog ''/nowhere/run.log'')
             (fst (run_with_pty ascii no_log_env [''claude'', ''-p''] (Some ''go'')
               (Some ''/nowhere/run.log''))))"
proof -
  have h: "openpty no_log_env = None" "popen no_log_env = None"
    "truthy (Some ''go'') \<longrightarrow> stdin_write no_log_env = None \<and> stdin_close no_log_env = None"
    "''/nowhere/run.log'' \<noteq> []" "open_log no_log_env = Some OSError"
    by (simp_all add: no_log_env_def)
  from log_open_failure_after_spawn[OF h(1,2,3) refl h(4,5), of ascii "[''claude'', ''-p'']"]
  show ?thesis by (simp add: no_log_env_def)
qed

subsection \<open>Closing\<close>

lemma tee_event_ReadChunk: "tee_event (ReadChunk b)"
  by (simp add: tee_event_def)

lemma tee_events: "tee cd haslog t data = (evs, chunks, x) \<Longrightarrow> list_all tee_event evs"
  by (auto simp: tee_def Let_def tee_event_def split: option.splits if_splits)

lemma read_step_events: "read_step cd haslog t = (evs, chunks, x) \<Longrightarrow> list_all tee_event evs"
  by (auto simp: read_step_def tee_event_ReadChunk
      split: sum.splits if_splits option.splits prod.splits dest: tee_events)

lemma drain_events: "drain cd haslog ts = (evs, chunks, r) \<Longrightarrow> list_all tee_event evs"
proof (induction ts arbitrary: evs chunks r)
  case Nil
  then show ?case by simp
next
  case (Cons t ts)
  then show ?case
    by (auto simp: tee_event_ReadChunk split: sum.splits if_splits option.splits prod.splits
        dest: tee_events)
qed

lemma loop_events: "loop cd haslog rc ts = (evs, chunks, rc', r) \<Longrightarrow> list_all tee_event evs"
proof (induction ts arbitrary: evs chunks rc' r)
  case Nil
  then show ?case by simp
next
  case (Cons t ts)
  then show ?case
    by (auto split: sum.splits if_splits option.splits prod.splits
        dest: read_step_events drain_events)
qed

lemma tee_event_not_stdin: "list_all tee_event evs \<Longrightarrow> filter is_stdin evs = []"
  by (induction evs) (auto simp: tee_event_def is_stdin_def split: event.splits)

lemma tee_event_not_close:
  "list_all tee_event evs \<Longrightarrow> count_list evs CloseMaster = 0 \<and> count_list evs CloseLog = 0"
  by (induction evs) (auto simp: tee_event_def split: event.splits)

lemma guarded_loop_closes:
  assumes "guarded_loop cd haslog ts = (evs, oc)" "oc \<noteq> Pending"
  shows "count_list evs CloseMaster = 1 \<and> count_list evs CloseLog = (if haslog then 1 else 0)"
proof -
  obtain a b rc r where L: "loop cd haslog None ts = (a, b, rc, r)"
    by (cases "loop cd haslog None ts") auto
  from assms L have r: "r \<noteq> Starved" and evs: "evs = a @ finally_events haslog r"
    by (auto simp: guarded_loop_def split: ending.splits)
  from tee_event_not_close[OF loop_events[OF L]] r evs show ?thesis
    by (simp add: finally_events_def)
qed

text \<open>
  C3.  When the run has reached the loop and leaves it, by a \<open>break\<close> (end of stream, or a
  read error) or by an exception raised inside the loop, the controller endpoint is
  closed exactly once, and the log handle is closed exactly once if a log was opened and
  never otherwise.
\<close>

theorem closes_exactly_once:
  assumes "enters_loop ev input_data log_file"
    and "snd (run_with_pty cd ev cmd input_data log_file) \<noteq> Pending"
  shows "count_list (fst (run_with_pty cd ev cmd input_data log_file)) CloseMaster = 1
     \<and> count_list (fst (run_with_pty cd ev cmd input_data log_file)) CloseLog
         = (if truthy log_file then 1 else 0)"
proof -
  have "snd (deliver_input cd ev input_data) = None
      \<and> count_list (fst (deliver_input cd ev input_data)) CloseMaster = 0
      \<and> count_list (fst (deliver_input cd ev input_data)) CloseLog = 0"
    using assms(1)
    by (auto simp: enters_loop_def deliver_input_def truthy_def split: option.splits)
  then obtain ins where I: "deliver_input cd ev input_data = (ins, None)"
      and ins: "count_list ins CloseMaster = 0" "count_list ins CloseLog = 0"
    by (cases "deliver_input cd ev input_data") auto
  have "snd (open_log_file ev log_file) = None
      \<and> count_list (fst (open_log_file ev log_file)) CloseMaster = 0
      \<and> count_list (fst (open_log_file ev log_file)) CloseLog = 0"
    using assms(1)
    by (auto simp: enters_loop_def open_log_file_def truthy_def split: option.splits)
  then obtain ops where O: "open_log_file ev log_file = (ops, None)"
      and ops: "count_list ops CloseMaster = 0" "count_list ops CloseLog = 0"
    by (cases "open_log_file ev log_file") auto
  obtain evs oc where G: "guarded_loop cd (truthy log_file) (ticks ev) = (evs, oc)"
    by (cases "guarded_loop cd (truthy log_file) (ticks ev)") auto
  from assms(1) I O G
  have R: "run_with_pty cd ev cmd input_data log_file
      = ([OpenPty, Spawn cmd, CloseSlave] @ ins @ ops @ evs, oc)"
    by (simp add: run_with_pty_def enters_loop_def)
  with assms(2) have "oc \<noteq> Pending" by simp
  from guarded_loop_closes[OF G this] R ins ops show ?thesis by simp
qed

lemma failing_sink_run:
  "run_with_pty ascii failing_sink_env [''claude'', ''-p''] None (Some ''run.log'') =
     ([OpenPty, Spawn [''claude'', ''-p''], CloseSlave, OpenLog ''run.log'',
       ReadChunk [104, 105], StdoutWrite ''hi'', LogWrite ''hi'', ReadChunk [33],
       CloseMaster, CloseLog],
      Raised OtherError)"
  by code_simp

theorem closes_exactly_once_witness:
  "enters_loop failing_sink_env None (Some ''run.log'')
   \<and> snd (run_with_pty ascii failing_sink_env [''claude'', ''-p''] None (Some ''run.log''))
       = Raised OtherError
   \<and> count_list (fst (run_with_pty ascii failing_sink_env [''claude'', ''-p''] None
       (Some ''run.log''))) CloseMaster = 1
   \<and> count_list (fst (run_with_pty ascii failing_sink_env [''claude'', ''-p''] None
       (Some ''run.log''))) CloseLog = 1"
proof -
  have h: "enters_loop failing_sink_env None (Some ''run.log'')"
    by (simp add: enters_loop_def failing_sink_env_def truthy_def)
  have p: "snd (run_with_pty ascii failing_sink_env [''claude'', ''-p''] None
      (Some ''run.log'')) \<noteq> Pending"
    by (simp add: failing_sink_run)
  from closes_exactly_once[OF h p] h show ?thesis
    by (simp add: failing_sink_run truthy_def)
qed

subsection \<open>The exit status\<close>

text \<open>
  C4.  The child has terminated with status 3 and the read on the controller endpoint
  fails.  The handler of line 61 leaves the loop by \<open>break\<close>, past the \<open>process.poll()\<close>
  of line 65, so \<open>process.returncode\<close> was never set: the run returns \<open>None\<close> where the
  exit status 3 is due.  The \<open>break\<close> of line 47, at the end of the stream, does the same.
\<close>

theorem read_error_returns_no_status:
  "run_with_pty ascii hangup_env [''claude'', ''-p''] None None =
     ([OpenPty, Spawn [''claude'', ''-p''], CloseSlave, CloseMaster], Returned None [])
   \<and> run_with_pty ascii eof_env [''claude'', ''-p''] None None =
     ([OpenPty, Spawn [''claude'', ''-p''], CloseSlave, CloseMaster], Returned None [])"
  by code_simp

subsection \<open>Input delivery\<close>

text \<open>When the child has gone before its input is flushed, the write is on record, the
  pipe is closed and the error of \<open>close\<close> ends the run before the log is opened.\<close>

lemma close_failure_after_write:
  "run_with_pty ascii deaf_child_env [''claude'', ''-p''] (Some ''go'') (Some ''run.log'') =
     ([OpenPty, Spawn [''claude'', ''-p''], CloseSlave, StdinWrite [103, 111], StdinClose],
      Raised OSError)"
  by code_simp

lemma guarded_loop_stdin: "filter is_stdin (fst (guarded_loop cd haslog ts)) = []"
proof -
  obtain a b rc r where L: "loop cd haslog None ts = (a, b, rc, r)"
    by (cases "loop cd haslog None ts") auto
  from tee_event_not_stdin[OF loop_events[OF L]] L show ?thesis
    by (simp add: guarded_loop_def finally_events_def is_stdin_def)
qed

text \<open>
  C10.  With the empty string as input text the run is the run without input text:
  the same events and the same outcome, and among the events no write to the child's
  standard-input pipe and no close of it.
\<close>

theorem empty_input_is_no_input:
  "run_with_pty cd ev cmd (Some []) log_file = run_with_pty cd ev cmd None log_file
   \<and> filter is_stdin (fst (run_with_pty cd ev cmd (Some []) log_file)) = []"
proof -
  have d: "deliver_input cd ev (Some []) = ([], None)" "deliver_input cd ev None = ([], None)"
    by (simp_all add: deliver_input_def)
  have eq: "run_with_pty cd ev cmd (Some []) log_file = run_with_pty cd ev cmd None log_file"
    by (simp add: run_with_pty_def d split: option.splits)
  have "filter is_stdin (fst (run_with_pty cd ev cmd None log_file)) = []"
    using guarded_loop_stdin[of cd "truthy log_file" "ticks ev"]
    by (auto simp: run_with_pty_def d open_log_file_def is_stdin_def
        split: option.splits prod.splits)
  with eq show ?thesis by simp
qed

section \<open>Properties of the decoder\<close>

subsection \<open>The concrete lines\<close>

lemma loads_hello: "strip hello_line \<noteq> [] \<and> demo_loads (strip hello_line) = Inr hello_msg"
  by code_simp

lemma loads_read_t1: "strip read_t1_line \<noteq> [] \<and> demo_loads (strip read_t1_line) = Inr read_t1"
  by code_simp



subsection \<open>Tool invocations are announced once\<close>

lemma announced_simps [simp]:
  "announced [] = []"
  "announced (ArchiveWrite l # tr) = announced tr"
  "announced (ToolLine k n d # tr) = k # announced tr"
  "announced (Fragment t # tr) = announced tr"
  "announced (NarrativeWrite t # tr) = announced tr"
  "announced (a @ b) = announced a @ announced b"
  by (simp_all add: announced_def announced_of_def)

lemma emit_text_seen:
  "emit_text st text = Inr (os, st') \<Longrightarrow> announced os = [] \<and> seen_tools st' = seen_tools st"
  by (auto simp: emit_text_def split: if_splits json.splits)

lemma tool_use_seen:
  "tool_use st b = Inr (os, st') \<Longrightarrow> announces_fresh st os \<and> enters_announced st os st'"
  by (auto simp: tool_use_def Let_def announces_fresh_def enters_announced_def
      split: sum.splits if_splits)

lemma quiet_step_seen: "announces_fresh st [] \<and> enters_announced st [] st"
  by (simp add: announces_fresh_def enters_announced_def)

lemma emit_text_step_seen:
  "emit_text st text = Inr (os, st') \<Longrightarrow> announces_fresh st os \<and> enters_announced st os st'"
  by (drule emit_text_seen) (simp add: announces_fresh_def enters_announced_def)

lemma assistant_block_seen:
  assumes "assistant_block st b = Inr (os, st')"
  shows "announces_fresh st os \<and> enters_announced st os st'"
proof (cases b)
  case (JObj kvs)
  consider (invocation) "dict_get kvs ''type'' JNull = JStr ''tool_use''"
    | (fragment) "dict_get kvs ''type'' JNull \<noteq> JStr ''tool_use''"
        "dict_get kvs ''type'' JNull = JStr ''text''"
    | (neither) "dict_get kvs ''type'' JNull \<noteq> JStr ''tool_use''"
        "dict_get kvs ''type'' JNull \<noteq> JStr ''text''"
    by blast
  then show ?thesis
  proof cases
    case invocation
    with assms JObj have "tool_use st kvs = Inr (os, st')" by (simp add: assistant_block_def)
    then show ?thesis by (rule tool_use_seen)
  next
    case fragment
    with assms JObj have "emit_text st (dict_get kvs ''text'' (JStr [])) = Inr (os, st')"
      by (simp add: assistant_block_def)
    then show ?thesis by (rule emit_text_step_seen)
  next
    case neither
    with assms JObj have "os = []" "st' = st" by (simp_all add: assistant_block_def)
    then show ?thesis by (simp add: quiet_step_seen)
  qed
qed (use assms in \<open>simp_all add: assistant_block_def\<close>)

lemma result_block_seen:
  assumes "result_block st b = Inr (os, st')"
  shows "announces_fresh st os \<and> enters_announced st os st'"
proof (cases b)
  case (JObj kvs)
  show ?thesis
  proof (cases "dict_get kvs ''type'' JNull = JStr ''text''")
    case True
    with assms JObj have "emit_text st (dict_get kvs ''text'' (JStr [])) = Inr (os, st')"
      by (simp add: result_block_def)
    then show ?thesis by (rule emit_text_step_seen)
  next
    case False
    with assms JObj have "os = []" "st' = st" by (simp_all add: result_block_def)
    then show ?thesis by (simp add: quiet_step_seen)
  qed
qed (use assms in \<open>simp_all add: result_block_def\<close>)

lemma fresh_append:
  assumes "announces_fresh st a" "enters_announced st a st'" "announces_fresh st' b"
  shows "announces_fresh st (a @ b)"
  using assms by (auto simp: announces_fresh_def enters_announced_def)

lemma enters_append:
  assumes "enters_announced st a st'" "enters_announced st' b st''"
  shows "enters_announced st (a @ b) st''"
  using assms by (auto simp: enters_announced_def)

lemma for_blocks_seen:
  assumes body: "\<And>st b os st'. body st b = Inr (os, st') \<Longrightarrow>
      announces_fresh st os \<and> enters_announced st os st'"
  shows "for_blocks body st bs = (os, r) \<Longrightarrow>
     announces_fresh st os \<and> (\<forall>st'. r = Inr st' \<longrightarrow> enters_announced st os st')"
proof (induction bs arbitrary: st os r)
  case Nil
  then show ?case by (auto simp: announces_fresh_def enters_announced_def)
next
  case (Cons b bs)
  show ?case
  proof (cases "body st b")
    case (Inl e)
    with Cons.prems show ?thesis by (auto simp: announces_fresh_def)
  next
    case (Inr p)
    obtain o1 st1 where p: "p = (o1, st1)" by (cases p)
    obtain o2 r2 where F: "for_blocks body st1 bs = (o2, r2)"
      by (cases "for_blocks body st1 bs")
    from body Inr p have b1: "announces_fresh st o1" "enters_announced st o1 st1" by auto
    from Cons.IH[OF F] have b2: "announces_fresh st1 o2"
      "\<forall>st'. r2 = Inr st' \<longrightarrow> enters_announced st1 o2 st'" by auto
    from Cons.prems Inr p F have e: "os = o1 @ o2" "r = r2" by auto
    from fresh_append[OF b1 b2(1)] enters_append[OF b1(2)] b2(2) e show ?thesis by blast
  qed
qed

text \<open>What interpreting a record amounts to: nothing, or one of the two block loops.\<close>

lemma interpret_record_cases:
  assumes "interpret_record st obj = (os, r)"
  shows "(os = [] \<and> (r = Inr st \<or> (\<exists>e. r = Inl e)))
     \<or> (\<exists>bs. for_blocks assistant_block st bs = (os, r))
     \<or> (\<exists>bs. for_blocks result_block st bs = (os, r))"
  using assms
  by (simp add: interpret_record_def Let_def split: json.splits if_splits) blast+

lemma interpret_record_seen:
  assumes "interpret_record st obj = (os, r)"
  shows "announces_fresh st os \<and> (\<forall>st'. r = Inr st' \<longrightarrow> enters_announced st os st')"
proof -
  have a: "announces_fresh st os \<and> (\<forall>st'. r = Inr st' \<longrightarrow> enters_announced st os st')"
    if "for_blocks assistant_block st bs = (os, r)" for bs
    using that assistant_block_seen
    by (rule for_blocks_seen[where body = assistant_block, rotated])
  have b: "announces_fresh st os \<and> (\<forall>st'. r = Inr st' \<longrightarrow> enters_announced st os st')"
    if "for_blocks result_block st bs = (os, r)" for bs
    using that result_block_seen
    by (rule for_blocks_seen[where body = result_block, rotated])
  from interpret_record_cases[OF assms] consider
      (quiet) "os = []" "r = Inr st \<or> (\<exists>e. r = Inl e)"
    | (assistant) bs where "for_blocks assistant_block st bs = (os, r)"
    | (result) bs where "for_blocks result_block st bs = (os, r)"
    by blast
  then show ?thesis
  proof cases
    case quiet
    then show ?thesis by (auto simp: announces_fresh_def enters_announced_def)
  next
    case assistant
    from a[OF this] show ?thesis .
  next
    case result
    from b[OF this] show ?thesis .
  qed
qed

lemma handle_line_seen:
  assumes "handle_line json_loads st line = (os, r)"
  shows "announces_fresh st os \<and> (\<forall>st'. r = Inr st' \<longrightarrow> enters_announced st os st')"
proof (cases "strip line \<noteq> [] \<and> (\<exists>obj. json_loads (strip line) = Inr obj)")
  case True
  then obtain obj where "json_loads (strip line) = Inr obj" "strip line \<noteq> []" by auto
  with assms have "interpret_record st obj = (os, r)" by (simp add: handle_line_def)
  from interpret_record_seen[OF this] show ?thesis .
next
  case False
  with assms have "os = []" "r = Inr st \<or> (\<exists>e. r = Inl e)"
    by (auto simp: handle_line_def Let_def split: if_splits sum.splits)
  then show ?thesis by (auto simp: announces_fresh_def enters_announced_def)
qed

lemma lines_loop_seen:
  "lines_loop json_loads st lines = (os, r) \<Longrightarrow>
     announces_fresh st os \<and> (\<forall>st'. r = Inr st' \<longrightarrow> enters_announced st os st')"
proof (induction lines arbitrary: st os r)
  case Nil
  then show ?case by (auto simp: announces_fresh_def enters_announced_def)
next
  case (Cons line rest)
  obtain o1 r1 where H: "handle_line json_loads st line = (o1, r1)"
    by (cases "handle_line json_loads st line")
  note h = handle_line_seen[OF H]
  show ?case
  proof (cases r1)
    case (Inl e)
    with Cons.prems H have "os = ArchiveWrite line # o1" "r = Inl e" by auto
    with h show ?thesis by (auto simp: announces_fresh_def)
  next
    case (Inr st1)
    obtain o2 r2 where L: "lines_loop json_loads st1 rest = (o2, r2)"
      by (cases "lines_loop json_loads st1 rest")
    from Cons.prems H Inr L have e: "os = ArchiveWrite line # o1 @ o2" "r = r2" by auto
    from h Inr have b1: "announces_fresh st o1" "enters_announced st o1 st1" by auto
    from Cons.IH[OF L] have b2: "announces_fresh st1 o2"
      "\<forall>st'. r2 = Inr st' \<longrightarrow> enters_announced st1 o2 st'" by auto
    from fresh_append[OF b1 b2(1)] enters_append[OF b1(2)] b2(2) e show ?thesis
      by (auto simp: announces_fresh_def enters_announced_def)
  qed
qed

lemma main_announced:
  "announced (fst (main json_loads lines)) = announced (fst (lines_loop json_loads initial lines))"
  by (auto simp: main_def initial_def split: prod.splits sum.splits)

lemma interpret_read_t1:
  "interpret_record st read_t1 =
     (if KStr ''t1'' \<in> seen_tools st then ([], Inr st)
      else ([ToolLine (KStr ''t1'') ''Read'' ''/a.txt''],
            Inr (st\<lparr>seen_tools := insert (KStr ''t1'') (seen_tools st)\<rparr>)))"
  by (simp add: read_t1_def interpret_record_def dict_get_def assistant_block_def tool_use_def
      hash_key_def tool_detail_def py_str_def)

text \<open>
  C5.  Over any stream of input lines, the identifiers for which the decoder prints a
  progress line are pairwise different: no identifier is announced twice.  In particular,
  when two lines carry the tool invocation \<open>t1\<close>, the run prints one progress line for it,
  after the first line, and none after the second.
\<close>

theorem each_tool_announced_once:
  "distinct (announced (fst (main json_loads lines)))
   \<and> (strip l1 \<noteq> [] \<and> json_loads (strip l1) = Inr read_t1
      \<and> strip l2 \<noteq> [] \<and> json_loads (strip l2) = Inr read_t1
      \<longrightarrow> main json_loads [l1, l2]
          = ([ArchiveWrite l1, ToolLine (KStr ''t1'') ''Read'' ''/a.txt'', ArchiveWrite l2,
              NarrativeWrite []], None))"
proof -
  obtain os r where L: "lines_loop json_loads initial lines = (os, r)"
    by (cases "lines_loop json_loads initial lines")
  from lines_loop_seen[OF L] have "distinct (announced os)" by (simp add: announces_fresh_def)
  with L have d: "distinct (announced (fst (main json_loads lines)))"
    by (simp add: main_announced)
  have "main json_loads [l1, l2]
          = ([ArchiveWrite l1, ToolLine (KStr ''t1'') ''Read'' ''/a.txt'', ArchiveWrite l2,
              NarrativeWrite []], None)"
    if "strip l1 \<noteq> []" "json_loads (strip l1) = Inr read_t1"
       "strip l2 \<noteq> []" "json_loads (strip l2) = Inr read_t1"
    using that by (simp add: main_def handle_line_def interpret_read_t1)
  with d show ?thesis by blast
qed

theorem each_tool_announced_once_witness:
  "strip read_t1_line \<noteq> [] \<and> demo_loads (strip read_t1_line) = Inr read_t1
   \<and> main demo_loads [read_t1_line, read_t1_line]
       = ([ArchiveWrite read_t1_line, ToolLine (KStr ''t1'') ''Read'' ''/a.txt'',
           ArchiveWrite read_t1_line, NarrativeWrite []], None)
   \<and> distinct (announced (fst (main demo_loads [hello_line, read_t1_line, read_t1_line])))"
  using each_tool_announced_once[where json_loads = demo_loads
      and lines = "[hello_line, read_t1_line, read_t1_line]"
      and ?l1.0 = read_t1_line and ?l2.0 = read_t1_line] loads_read_t1
  by blast

subsection \<open>Text fragments\<close>

lemma take_is_prefix: "(take (length a) s = a) = (\<exists>q. s = a @ q)"
  by (metis append_eq_conv_conj append_take_drop_id)

text \<open>\<open>py_in\<close> searches position by position; it finds \<open>sub\<close> exactly when \<open>sub\<close> is a
  substring.\<close>

lemma py_in_substring: "py_in sub s = (\<exists>p q. s = p @ sub @ q)"
proof (induction s)
  case Nil
  then show ?case by simp
next
  case (Cons c cs)
  have "(\<exists>p q. c # cs = p @ sub @ q) = ((\<exists>q. c # cs = sub @ q) \<or> (\<exists>p q. cs = p @ sub @ q))"
  proof
    assume "\<exists>p q. c # cs = p @ sub @ q"
    then obtain p q where pq: "c # cs = p @ sub @ q" by blast
    show "(\<exists>q. c # cs = sub @ q) \<or> (\<exists>p q. cs = p @ sub @ q)"
    proof (cases p)
      case Nil
      with pq show ?thesis by auto
    next
      case (Cons a p')
      with pq have "cs = p' @ sub @ q" by simp
      then show ?thesis by blast
    qed
  next
    assume "(\<exists>q. c # cs = sub @ q) \<or> (\<exists>p q. cs = p @ sub @ q)"
    then show "\<exists>p q. c # cs = p @ sub @ q"
    proof
      assume "\<exists>q. c # cs = sub @ q"
      then obtain q where "c # cs = [] @ sub @ q" by auto
      then show ?thesis by blast
    next
      assume "\<exists>p q. cs = p @ sub @ q"
      then obtain p q where "c # cs = (c # p) @ sub @ q" by auto
      then show ?thesis by blast
    qed
  qed
  with Cons.IH show ?case by (simp only: py_in.simps take_is_prefix)
qed

lemma interpret_hello:
  "interpret_record st hello_msg =
     (if py_in ''Hello'' (full_text st) then ([], Inr st)
      else ([Fragment ''Hello''], Inr (st\<lparr>full_text := full_text st @ ''Hello''\<rparr>)))"
  by (simp add: hello_msg_def interpret_record_def dict_get_def assistant_block_def
      emit_text_def py_truthy_def)

text \<open>
  C6.  A text fragment is printed to the live sink and appended to the accumulated
  narrative if and only if it is not empty and does not occur as a substring of the
  narrative accumulated so far; otherwise nothing is printed and the narrative stays as it
  is.  Consequently, when two assistant-message lines both carry the fragment \<open>Hello\<close>, it
  is printed once and the narrative file holds it once.
\<close>

theorem text_fragment_rule:
  "emit_text st (JStr t) =
     (if t \<noteq> [] \<and> \<not> (\<exists>p q. full_text st = p @ t @ q)
      then Inr ([Fragment t], st\<lparr>full_text := full_text st @ t\<rparr>)
      else Inr ([], st))
   \<and> (strip l1 \<noteq> [] \<and> json_loads (strip l1) = Inr hello_msg
      \<and> strip l2 \<noteq> [] \<and> json_loads (strip l2) = Inr hello_msg
      \<longrightarrow> main json_loads [l1, l2]
            = ([ArchiveWrite l1, Fragment ''Hello'', ArchiveWrite l2, NarrativeWrite ''Hello''],
               None)
          \<and> fragments (fst (main json_loads [l1, l2])) = [''Hello'']
          \<and> narrative (fst (main json_loads [l1, l2])) = [''Hello''])"
proof -
  have rule: "emit_text st (JStr t) =
     (if t \<noteq> [] \<and> \<not> (\<exists>p q. full_text st = p @ t @ q)
      then Inr ([Fragment t], st\<lparr>full_text := full_text st @ t\<rparr>)
      else Inr ([], st))"
    by (simp add: emit_text_def py_truthy_def py_in_substring)
  have run: "main json_loads [l1, l2]
            = ([ArchiveWrite l1, Fragment ''Hello'', ArchiveWrite l2, NarrativeWrite ''Hello''],
               None)"
    if "strip l1 \<noteq> []" "json_loads (strip l1) = Inr hello_msg"
       "strip l2 \<noteq> []" "json_loads (strip l2) = Inr hello_msg"
    using that by (simp add: main_def handle_line_def interpret_hello)
  have "fragments (fst (main json_loads [l1, l2])) = [''Hello'']
      \<and> narrative (fst (main json_loads [l1, l2])) = [''Hello'']"
    if "main json_loads [l1, l2]
            = ([ArchiveWrite l1, Fragment ''Hello'', ArchiveWrite l2, NarrativeWrite ''Hello''],
               None)"
    using that by (simp add: fragments_def fragments_of_def narrative_def narrative_of_def)
  with rule run show ?thesis by blast
qed

theorem text_fragment_rule_witness:
  "strip hello_line \<noteq> [] \<and> demo_loads (strip hello_line) = Inr hello_msg
   \<and> emit_text \<lparr>full_text = ''Say Hello'', seen_tools = {}\<rparr> (JStr ''Hello'')
       = Inr ([], \<lparr>full_text = ''Say Hello'', seen_tools = {}\<rparr>)
   \<and> main demo_loads [hello_line, hello_line]
       = ([ArchiveWrite hello_line, Fragment ''Hello'', ArchiveWrite hello_line,
           NarrativeWrite ''Hello''], None)
   \<and> fragments (fst (main demo_loads [hello_line, hello_line])) = [''Hello'']
   \<and> narrative (fst (main demo_loads [hello_line, hello_line])) = [''Hello'']"
proof -
  have "full_text \<lparr>full_text = ''Say Hello'', seen_tools = {}\<rparr> = ''Say '' @ ''Hello'' @ []"
    by simp
  then have s: "\<exists>p q. full_text \<lparr>full_text = ''Say Hello'', seen_tools = {}\<rparr> = p @ ''Hello'' @ q"
    by blast
  note r = text_fragment_rule[where st = "\<lparr>full_text = ''Say Hello'', seen_tools = {}\<rparr>"
      and t = "''Hello''" and json_loads = demo_loads
      and ?l1.0 = hello_line and ?l2.0 = hello_line]
  from conjunct1[OF r] s
  have a: "emit_text \<lparr>full_text = ''Say Hello'', seen_tools = {}\<rparr> (JStr ''Hello'')
       = Inr ([], \<lparr>full_text = ''Say Hello'', seen_tools = {}\<rparr>)"
    by (simp only: simp_thms if_False)
  from conjunct2[OF r] loads_hello a show ?thesis by blast
qed

subsection \<open>The record archive\<close>









text \<open>A line that \<open>json.loads\<close> accepts but that is not a mapping (a number, a quoted
  string, a list) is past the handler of line 81: \<open>obj.get\<close> raises.\<close>

lemma non_mapping_record_raises:
  "interpret_record st JNull = ([], Inl AttributeError)"
  "interpret_record st (JBool b) = ([], Inl AttributeError)"
  "interpret_record st (JInt i) = ([], Inl AttributeError)"
  "interpret_record st (JStr s) = ([], Inl AttributeError)"
  "interpret_record st (JArr xs) = ([], Inl AttributeError)"
  by (simp_all add: interpret_record_def)





subsection \<open>The detail of a progress line\<close>

text \<open>The fallback without a description: the textual form of the arguments.\<close>

lemma fallback_example:
  "tool_detail (JStr ''WebFetch'') (JObj [(''url'', JStr ''http://x''), (''depth'', JInt 3)])
     = Inr (JStr (''{'' @ [CHR 0x27] @ ''url'' @ [CHR 0x27] @ '': '' @ [CHR 0x27] @ ''http://x''
         @ [CHR 0x27] @ '', '' @ [CHR 0x27] @ ''depth'' @ [CHR 0x27] @ '': 3}''))"
  by code_simp






subsection \<open>The final result\<close>






end
